theory Spec2Isabelle
  imports Complex_Main
begin

section \<open>Lake-basin hydraulics: a model of \<open>utils/math\<close>\<close>

text \<open>
  The functions of \<open>utils/math\<close> compute with JavaScript numbers. A finite number
  is a \<open>real\<close> here, and the arithmetic on finite numbers is exact: the rounding of a
  result to the nearest double is not modelled. Three things are modelled beside it.
  \<^item> The special values. Where the code creates or tests them (the no-data samples of a
    raster, the running minimum that starts at \<open>Infinity\<close>, a division by a height
    range of zero), the values are of type \<open>number\<close>, which adds \<open>Infinity\<close>,
    \<open>-Infinity\<close> and \<open>NaN\<close> to the reals.
  \<^item> The overflow of a double. The hydraulic functions are given a second time over
    \<open>number\<close>, with every operation overflowing to an infinity; the two versions
    give the same area, volume and concentration for elevations and masses up to
    \<open>10 ^ 50\<close>.
  \<^item> The single precision of the height grid: what a \<open>Float32Array\<close> keeps of a
    result is a parameter of the raster functions.
\<close>

subsection \<open>JavaScript numbers with their special values\<close>

datatype number = Fin real | PInf | NInf | NaN

fun isNaN :: "number \<Rightarrow> bool" where
  "isNaN NaN = True"
| "isNaN _ = False"

text \<open>The comparison \<open>a < b\<close>: false as soon as one side is \<open>NaN\<close>.\<close>

fun num_less :: "number \<Rightarrow> number \<Rightarrow> bool" where
  "num_less NaN _ = False"
| "num_less _ NaN = False"
| "num_less (Fin a) (Fin b) = (a < b)"
| "num_less (Fin a) PInf = True"
| "num_less (Fin a) NInf = False"
| "num_less PInf _ = False"
| "num_less NInf NInf = False"
| "num_less NInf _ = True"

text \<open>The difference \<open>a - b\<close>: \<open>Infinity - Infinity\<close> is \<open>NaN\<close>.\<close>

fun num_sub :: "number \<Rightarrow> number \<Rightarrow> number" where
  "num_sub NaN _ = NaN"
| "num_sub _ NaN = NaN"
| "num_sub (Fin a) (Fin b) = Fin (a - b)"
| "num_sub (Fin a) PInf = NInf"
| "num_sub (Fin a) NInf = PInf"
| "num_sub PInf PInf = NaN"
| "num_sub PInf _ = PInf"
| "num_sub NInf NInf = NaN"
| "num_sub NInf _ = NInf"

text \<open>The sum \<open>a + b\<close>: \<open>Infinity + -Infinity\<close> is \<open>NaN\<close>.\<close>

fun num_add :: "number \<Rightarrow> number \<Rightarrow> number" where
  "num_add NaN _ = NaN"
| "num_add _ NaN = NaN"
| "num_add (Fin a) (Fin b) = Fin (a + b)"
| "num_add (Fin a) b = b"
| "num_add PInf NInf = NaN"
| "num_add PInf _ = PInf"
| "num_add NInf PInf = NaN"
| "num_add NInf _ = NInf"

text \<open>An infinity with the sign of a finite factor; \<open>0 * Infinity\<close> is \<open>NaN\<close>.\<close>

definition signed_inf :: "real \<Rightarrow> number" where
  "signed_inf a = (if a > 0 then PInf else if a < 0 then NInf else NaN)"

fun num_neg :: "number \<Rightarrow> number" where
  "num_neg (Fin a) = Fin (- a)"
| "num_neg PInf = NInf"
| "num_neg NInf = PInf"
| "num_neg NaN = NaN"

text \<open>The product \<open>a * b\<close>.\<close>

fun num_mul :: "number \<Rightarrow> number \<Rightarrow> number" where
  "num_mul NaN _ = NaN"
| "num_mul _ NaN = NaN"
| "num_mul (Fin a) (Fin b) = Fin (a * b)"
| "num_mul (Fin a) PInf = signed_inf a"
| "num_mul (Fin a) NInf = num_neg (signed_inf a)"
| "num_mul PInf (Fin b) = signed_inf b"
| "num_mul NInf (Fin b) = num_neg (signed_inf b)"
| "num_mul PInf PInf = PInf"
| "num_mul PInf NInf = NInf"
| "num_mul NInf PInf = NInf"
| "num_mul NInf NInf = PInf"

text \<open>
  The quotient \<open>a / b\<close>. A finite zero is the positive zero: a non-zero number over
  zero is the infinity of its sign, \<open>0 / 0\<close> is \<open>NaN\<close>.
\<close>

fun num_div :: "number \<Rightarrow> number \<Rightarrow> number" where
  "num_div NaN _ = NaN"
| "num_div _ NaN = NaN"
| "num_div (Fin a) (Fin b) = (if b = 0 then signed_inf a else Fin (a / b))"
| "num_div (Fin a) _ = Fin 0"
| "num_div PInf (Fin b) = (if b < 0 then NInf else PInf)"
| "num_div NInf (Fin b) = (if b < 0 then PInf else NInf)"
| "num_div _ _ = NaN"

text \<open>\<open>Math.max\<close> and \<open>Math.min\<close>: \<open>NaN\<close> as soon as one argument is.\<close>

definition math_max :: "number \<Rightarrow> number \<Rightarrow> number" where
  "math_max a b = (if isNaN a \<or> isNaN b then NaN else if num_less a b then b else a)"

definition math_min :: "number \<Rightarrow> number \<Rightarrow> number" where
  "math_min a b = (if isNaN a \<or> isNaN b then NaN else if num_less b a then b else a)"

subsection \<open>The calibrated area polynomial and the year model\<close>

definition C4 :: real where "C4 = - 10.984357780264"
definition C3 :: real where "C3 = 191820.49752582"
definition C2 :: real where "C2 = - 1256158182.19156"
definition C1 :: real where "C1 = 3656024105511.9"
definition C0 :: real where "C0 = - 3990277863318550"

definition YEAR_SLOPE :: real where "YEAR_SLOPE = 0.7903"
definition YEAR_INTERCEPT :: real where "YEAR_INTERCEPT = - 1483.3"

text \<open>The quartic before the clamp (the local \<open>area\<close> of \<open>calculatePolynomialArea\<close>).\<close>

definition polyArea :: "real \<Rightarrow> real" where
  "polyArea x = C4 * x ^ 4 + C3 * x ^ 3 + C2 * x ^ 2 + C1 * x + C0"

definition calculatePolynomialArea :: "real \<Rightarrow> real" where
  "calculatePolynomialArea x = max 0 (polyArea x)"

definition calculateAreaIntegral :: "real \<Rightarrow> real" where
  "calculateAreaIntegral x =
     (C4 / 5) * x ^ 5 + (C3 / 4) * x ^ 4 + (C2 / 3) * x ^ 3 + (C1 / 2) * x ^ 2 + C0 * x"

definition calculateYearFromArea :: "real \<Rightarrow> real" where
  "calculateYearFromArea areaKm2 = (areaKm2 - YEAR_INTERCEPT) / YEAR_SLOPE"

subsection \<open>Elevation from year: the bounded binary search\<close>

text \<open>
  The \<open>for\<close> loop of \<open>getElevationFromYear\<close>, with the number of iterations that
  remain as its counter: it returns the midpoint as soon as the area there is within
  \<open>epsilon = 1.0\<close> of the target, and the midpoint of the last bracket when the
  iterations are used up.
\<close>

fun searchLoop :: "nat \<Rightarrow> real \<Rightarrow> real \<Rightarrow> real \<Rightarrow> real" where
  "searchLoop 0 target low high = (low + high) / 2"
| "searchLoop (Suc n) target low high =
     (let mid = (low + high) / 2;
          area = calculatePolynomialArea mid
      in if \<bar>area - target\<bar> < 1 then mid
         else if area < target then searchLoop n target mid high
         else searchLoop n target low mid)"

definition getElevationFromYear :: "real \<Rightarrow> real" where
  "getElevationFromYear year =
     (let targetAreaKm2 = YEAR_SLOPE * year + YEAR_INTERCEPT;
          targetAreaM2 = max 0 (targetAreaKm2 * 1000000)
      in if targetAreaM2 \<le> 1 then 4304
         else searchLoop 64 targetAreaM2 4304 4450)"

subsection \<open>Hydraulics at one water level\<close>

record SimulationStats =
  waterLevel :: real
  surfaceArea :: real
  volume :: real
  concentration :: real
  estimatedYear :: "int option"

text \<open>\<open>Math.round\<close> rounds to the nearest integer, a half upwards.\<close>

definition math_round :: "real \<Rightarrow> int" where
  "math_round x = \<lfloor>x + 1 / 2\<rfloor>"

definition LOWER_LIMIT :: real where "LOWER_LIMIT = 4304"

definition calculateHydraulics :: "real \<Rightarrow> real \<Rightarrow> SimulationStats" where
  "calculateHydraulics absoluteElevation substanceMassTons =
     (let surfaceAreaM2 = calculatePolynomialArea absoluteElevation;
          volumeM3 = (if absoluteElevation > LOWER_LIMIT
                      then calculateAreaIntegral absoluteElevation - calculateAreaIntegral LOWER_LIMIT
                      else 0);
          volumeM3 = max 0 volumeM3;
          concentration = (if volumeM3 > 0.001
                           then (substanceMassTons * 1000000) / volumeM3 else 0);
          surfaceAreaKm2 = surfaceAreaM2 / 1000000;
          estimatedYear = math_round (calculateYearFromArea surfaceAreaKm2)
      in \<lparr> waterLevel = absoluteElevation, surfaceArea = surfaceAreaM2,
           volume = volumeM3, concentration = concentration,
           estimatedYear = Some estimatedYear \<rparr>)"

text \<open>
  The volume between two elevations, as the design names it: the clamped difference of
  the antiderivative (lines 525 and 528 of the source, with the lower limit as a
  parameter).
\<close>

definition volumeBetween :: "real \<Rightarrow> real \<Rightarrow> real" where
  "volumeBetween low high = max 0 (calculateAreaIntegral high - calculateAreaIntegral low)"

subsection \<open>The hydraulic functions with the overflow of doubles\<close>

text \<open>
  A result whose magnitude reaches \<open>2 ^ 1024\<close> is beyond the doubles and becomes an
  infinity. A smaller result is kept as it is: rounding is not modelled, and the few
  results between the largest double and \<open>2 ^ 1024\<close> stay finite.
\<close>

definition overflow :: "real \<Rightarrow> number" where
  "overflow r = (if 2 ^ 1024 \<le> r then PInf else if r \<le> - (2 ^ 1024) then NInf else Fin r)"

fun dbl :: "number \<Rightarrow> number" where
  "dbl (Fin r) = overflow r"
| "dbl v = v"

definition d_add :: "number \<Rightarrow> number \<Rightarrow> number" where
  "d_add a b = dbl (num_add a b)"

definition d_sub :: "number \<Rightarrow> number \<Rightarrow> number" where
  "d_sub a b = dbl (num_sub a b)"

definition d_mul :: "number \<Rightarrow> number \<Rightarrow> number" where
  "d_mul a b = dbl (num_mul a b)"

definition d_div :: "number \<Rightarrow> number \<Rightarrow> number" where
  "d_div a b = dbl (num_div a b)"

text \<open>The power \<open>x ** n\<close> for an exponent \<open>n\<close> of at least 1.\<close>

fun num_power :: "number \<Rightarrow> nat \<Rightarrow> number" where
  "num_power (Fin r) n = Fin (r ^ n)"
| "num_power PInf n = PInf"
| "num_power NInf n = (if even n then PInf else NInf)"
| "num_power NaN n = NaN"

definition d_pow :: "number \<Rightarrow> nat \<Rightarrow> number" where
  "d_pow x n = dbl (num_power x n)"

text \<open>
  \<open>calculatePolynomialArea\<close>, \<open>calculateAreaIntegral\<close>,
  \<open>calculateYearFromArea\<close> and \<open>calculateHydraulics\<close> once more, operation by
  operation in the order of the source, every intermediate result a double.
\<close>

definition calculatePolynomialArea_num :: "number \<Rightarrow> number" where
  "calculatePolynomialArea_num x =
     (let term4 = d_mul (Fin C4) (d_pow x 4);
          term3 = d_mul (Fin C3) (d_pow x 3);
          term2 = d_mul (Fin C2) (d_pow x 2);
          term1 = d_mul (Fin C1) x;
          term0 = Fin C0;
          area = d_add (d_add (d_add (d_add term4 term3) term2) term1) term0
      in math_max (Fin 0) area)"

definition calculateAreaIntegral_num :: "number \<Rightarrow> number" where
  "calculateAreaIntegral_num x =
     (let term5 = d_mul (d_div (Fin C4) (Fin 5)) (d_pow x 5);
          term4 = d_mul (d_div (Fin C3) (Fin 4)) (d_pow x 4);
          term3 = d_mul (d_div (Fin C2) (Fin 3)) (d_pow x 3);
          term2 = d_mul (d_div (Fin C1) (Fin 2)) (d_pow x 2);
          term1 = d_mul (Fin C0) x
      in d_add (d_add (d_add (d_add term5 term4) term3) term2) term1)"

definition calculateYearFromArea_num :: "number \<Rightarrow> number" where
  "calculateYearFromArea_num areaKm2 = d_div (d_sub areaKm2 (Fin YEAR_INTERCEPT)) (Fin YEAR_SLOPE)"

fun math_round_num :: "number \<Rightarrow> number" where
  "math_round_num (Fin r) = Fin (of_int \<lfloor>r + 1 / 2\<rfloor>)"
| "math_round_num v = v"

record SimulationStats_num =
  waterLevel_num :: number
  surfaceArea_num :: number
  volume_num :: number
  concentration_num :: number
  estimatedYear_num :: "number option"

definition calculateHydraulics_num :: "number \<Rightarrow> number \<Rightarrow> SimulationStats_num" where
  "calculateHydraulics_num absoluteElevation substanceMassTons =
     (let surfaceAreaM2 = calculatePolynomialArea_num absoluteElevation;
          volumeM3 = (if num_less (Fin LOWER_LIMIT) absoluteElevation
                      then d_sub (calculateAreaIntegral_num absoluteElevation)
                                 (calculateAreaIntegral_num (Fin LOWER_LIMIT))
                      else Fin 0);
          volumeM3 = math_max (Fin 0) volumeM3;
          concentration = (if num_less (Fin 0.001) volumeM3
                           then d_div (d_mul substanceMassTons (Fin 1000000)) volumeM3 else Fin 0);
          surfaceAreaKm2 = d_div surfaceAreaM2 (Fin 1000000);
          estimatedYear = math_round_num (calculateYearFromArea_num surfaceAreaKm2)
      in \<lparr> waterLevel_num = absoluteElevation, surfaceArea_num = surfaceAreaM2,
           volume_num = volumeM3, concentration_num = concentration,
           estimatedYear_num = Some estimatedYear \<rparr>)"

subsection \<open>The search as the design describes it\<close>

text \<open>
  The bracket after \<open>k\<close> halvings that did not stop, starting from the domain
  \<open>[4304, 4450]\<close>; its midpoint; and the test that stops the search there.
\<close>

fun bracket :: "real \<Rightarrow> nat \<Rightarrow> real \<times> real" where
  "bracket target 0 = (4304, 4450)"
| "bracket target (Suc k) =
     (let (low, high) = bracket target k; mid = (low + high) / 2
      in if calculatePolynomialArea mid < target then (mid, high) else (low, mid))"

definition midpoint :: "real \<Rightarrow> nat \<Rightarrow> real" where
  "midpoint target k = (fst (bracket target k) + snd (bracket target k)) / 2"

definition converged :: "real \<Rightarrow> nat \<Rightarrow> bool" where
  "converged target k = (\<bar>calculatePolynomialArea (midpoint target k) - target\<bar> < 1)"

text \<open>
  The target area is the linear year model, floored at 0, in square metres. At most 1
  square metre: the lower bound of the domain. Otherwise the midpoint of the first of
  the 64 brackets that meets the tolerance, and the midpoint of the bracket that remains
  when none does.
\<close>

definition elevationFromYear_spec :: "real \<Rightarrow> real" where
  "elevationFromYear_spec year =
     (let target = max 0 ((YEAR_SLOPE * year + YEAR_INTERCEPT) * 1000000)
      in if target \<le> 1 then 4304
         else (case find (converged target) [0..<64] of
                 Some k \<Rightarrow> midpoint target k
               | None \<Rightarrow> midpoint target 64))"

subsection \<open>Raster ingestion\<close>

text \<open>
  A sample is no data when it is \<open>NaN\<close> or lies outside \<open>[-12000, 12000]\<close>
  (line 377).
\<close>

definition noData :: "number \<Rightarrow> bool" where
  "noData val = (isNaN val \<or> num_less val (Fin (- 12000)) \<or> num_less (Fin 12000) val)"

text \<open>
  Reading a typed array beyond its length gives \<open>undefined\<close>, for which
  \<open>isNaN\<close> holds: the read is modelled as \<open>NaN\<close>.
\<close>

definition readRaw :: "number list \<Rightarrow> int \<Rightarrow> number" where
  "readRaw rawData srcIdx =
     (if 0 \<le> srcIdx \<and> srcIdx < int (length rawData) then rawData ! nat srcIdx else NaN)"

text \<open>The nearest-neighbour source sample of output cell \<open>(x, y)\<close> (lines 366 to 374).\<close>

definition sampleAt :: "number list \<Rightarrow> nat \<Rightarrow> nat \<Rightarrow> real \<Rightarrow> nat \<Rightarrow> nat \<Rightarrow> number" where
  "sampleAt rawData origWidth origHeight scale x y =
     (let srcX = \<lfloor>real x * scale\<rfloor>;
          srcY = \<lfloor>real y * scale\<rfloor>;
          safeX = min (max 0 srcX) (int origWidth - 1);
          safeY = min (max 0 srcY) (int origHeight - 1);
          srcIdx = safeY * int origWidth + safeX
      in readRaw rawData srcIdx)"

text \<open>
  The scale factor (lines 349 to 353), for a \<open>targetMaxSize\<close> that is not zero.
\<close>

definition demScale :: "nat \<Rightarrow> nat \<Rightarrow> nat \<Rightarrow> real" where
  "demScale origWidth origHeight targetMaxSize =
     (let maxDim = max origWidth origHeight
      in if maxDim > targetMaxSize then real maxDim / real targetMaxSize else 1)"

text \<open>
  The samples that the first pass reads, in the order in which the nested iteration
  visits the cells: row by row, the order of the index \<open>y * newWidth + x\<close>.
\<close>

definition gridSamples :: "number list \<Rightarrow> nat \<Rightarrow> nat \<Rightarrow> real \<Rightarrow> nat \<Rightarrow> nat \<Rightarrow> number list" where
  "gridSamples rawData origWidth origHeight scale newWidth newHeight =
     concat (map (\<lambda>y. map (\<lambda>x. sampleAt rawData origWidth origHeight scale x y) [0..<newWidth])
                 [0..<newHeight])"

text \<open>
  The output is a \<open>Float32Array\<close>. What a cell keeps of the exact result of an
  operation is the parameter \<open>fround\<close> of the model: the result rounded to a
  double and then to single precision. The special values are kept as they are.
\<close>

fun float32 :: "(real \<Rightarrow> real) \<Rightarrow> number \<Rightarrow> number" where
  "float32 fround (Fin r) = Fin (fround r)"
| "float32 fround v = v"

text \<open>
  One iteration of the first pass (lines 376 to 384) on the sample \<open>val\<close>: the
  state is the output written so far and the running minimum and maximum, which are
  taken from the sample itself, a double. Writing cell by cell in the order of the
  index appends to the output.
\<close>

fun firstPassStep :: "(real \<Rightarrow> real) \<Rightarrow> number \<Rightarrow> number list \<times> number \<times> number \<Rightarrow> number list \<times> number \<times> number" where
  "firstPassStep fround val (newData, minVal, maxVal) =
     (if noData val then (newData @ [NaN], minVal, maxVal)
      else (newData @ [float32 fround val],
            if num_less val minVal then val else minVal,
            if num_less maxVal val then val else maxVal))"

text \<open>
  The second pass (lines 391 to 397) on one cell: a \<open>NaN\<close> becomes 0, and any other
  cell the difference to the minimum, written back into the array.
\<close>

definition normalizeCell :: "(real \<Rightarrow> real) \<Rightarrow> number \<Rightarrow> number \<Rightarrow> number" where
  "normalizeCell fround minVal v = (if isNaN v then Fin 0 else float32 fround (num_sub v minVal))"

record DemData =
  data :: "number list"
  width :: nat
  height :: nat
  minHeight :: number
  maxHeight :: number

text \<open>
  The dimensions are cell counts and \<open>targetMaxSize\<close> is a size: natural numbers.
  With \<open>targetMaxSize = 0\<close> and a raster that has a cell, \<open>scale\<close> is
  \<open>Infinity\<close> and both output dimensions are \<open>floor (n / Infinity) = 0\<close>: no
  iteration runs, which the first branch writes out.
\<close>

definition processRawDemData :: "(real \<Rightarrow> real) \<Rightarrow> number list \<Rightarrow> nat \<Rightarrow> nat \<Rightarrow> nat \<Rightarrow> DemData" where
  "processRawDemData fround rawData origWidth origHeight targetMaxSize =
     (let maxDim = max origWidth origHeight
      in if maxDim > targetMaxSize \<and> targetMaxSize = 0
         then \<lparr> data = [], width = 0, height = 0, minHeight = Fin 0, maxHeight = Fin 10 \<rparr>
         else
           let scale = demScale origWidth origHeight targetMaxSize;
               newWidth = nat \<lfloor>real origWidth / scale\<rfloor>;
               newHeight = nat \<lfloor>real origHeight / scale\<rfloor>;
               samples = gridSamples rawData origWidth origHeight scale newWidth newHeight;
               (newData, minVal, maxVal) = fold (firstPassStep fround) samples ([], PInf, NInf);
               (minVal, maxVal) = (if minVal = PInf then (Fin 0, Fin 10) else (minVal, maxVal))
           in \<lparr> data = map (normalizeCell fround minVal) newData, width = newWidth,
                height = newHeight, minHeight = minVal, maxHeight = num_sub maxVal minVal \<rparr>)"

text \<open>A rounding to halves, which stands for \<open>fround\<close> in the examples.\<close>

definition round_half :: "real \<Rightarrow> real" where
  "round_half x = real_of_int \<lfloor>2 * x + 1 / 2\<rfloor> / 2"

subsection \<open>The normalised grid as the design describes it\<close>

text \<open>The heights of the valid samples, in their order.\<close>

fun finiteValue :: "number \<Rightarrow> real" where
  "finiteValue (Fin r) = r"
| "finiteValue _ = 0"

definition validSamples :: "number list \<Rightarrow> real list" where
  "validSamples samples = map finiteValue (filter (\<lambda>s. \<not> noData s) samples)"

text \<open>The minimum over the valid samples, and 0 when there is none.\<close>

definition lowestValid :: "number list \<Rightarrow> real" where
  "lowestValid samples =
     (if validSamples samples = [] then 0 else Min (set (validSamples samples)))"

text \<open>
  An invalid cell is filled with the height 0; a valid cell is its sample shifted down
  by the minimum, as the array keeps it.
\<close>

definition fillOrShift :: "(real \<Rightarrow> real) \<Rightarrow> real \<Rightarrow> number \<Rightarrow> number" where
  "fillOrShift fround lowest s =
     (if noData s then Fin 0 else Fin (fround (finiteValue s - lowest)))"

subsection \<open>Colour by height\<close>

definition lerp :: "real \<Rightarrow> real \<Rightarrow> number \<Rightarrow> number" where
  "lerp start end' t = num_add (num_mul (Fin start) (num_sub (Fin 1) t)) (num_mul (Fin end') t)"

definition SAND :: "real \<times> real \<times> real" where "SAND = (0.82, 0.78, 0.55)"
definition GRASS :: "real \<times> real \<times> real" where "GRASS = (0.25, 0.55, 0.2)"
definition ROCK :: "real \<times> real \<times> real" where "ROCK = (0.45, 0.42, 0.38)"
definition SNOW :: "real \<times> real \<times> real" where "SNOW = (0.95, 0.95, 1.0)"

text \<open>One colour stop blended into the next, channel by channel.\<close>

definition blend :: "real \<times> real \<times> real \<Rightarrow> real \<times> real \<times> real \<Rightarrow> number \<Rightarrow> number \<times> number \<times> number" where
  "blend a b localT =
     (case (a, b) of ((a0, a1, a2), (b0, b1, b2)) \<Rightarrow>
        (lerp a0 b0 localT, lerp a1 b1 localT, lerp a2 b2 localT))"

text \<open>
  The height and the maximum are finite numbers. The normalised height \<open>t\<close> is a
  \<open>number\<close>: the quotient is \<open>NaN\<close> or infinite when the maximum is zero.
\<close>

definition getColorByHeight :: "real \<Rightarrow> real \<Rightarrow> number \<times> number \<times> number" where
  "getColorByHeight height' max' =
     (let t = math_min (math_max (num_div (Fin height') (Fin max')) (Fin 0)) (Fin 1)
      in if num_less t (Fin 0.1) then blend SAND GRASS (num_div t (Fin 0.1))
         else if num_less t (Fin 0.5) then blend GRASS ROCK (num_div (num_sub t (Fin 0.1)) (Fin 0.4))
         else blend ROCK SNOW (num_div (num_sub t (Fin 0.5)) (Fin 0.5)))"

subsection \<open>Predicates used in the proofs\<close>

text \<open>A colour channel: a finite number between 0 and 1.\<close>

definition unit_interval :: "number \<Rightarrow> bool" where
  "unit_interval v = (case v of Fin r \<Rightarrow> 0 \<le> r \<and> r \<le> 1 | _ \<Rightarrow> False)"

text \<open>A real of magnitude at most \<open>10 ^ k\<close>.\<close>

definition bounded :: "nat \<Rightarrow> real \<Rightarrow> bool" where
  "bounded k r = (\<bar>r\<bar> \<le> 10 ^ k)"

section \<open>Properties\<close>

subsection \<open>Values of the area polynomial\<close>

lemma polyArea_4300: "polyArea 4300 = - 37906388.0064"
  by (simp add: polyArea_def C4_def C3_def C2_def C1_def C0_def)

lemma polyArea_4377: "polyArea 4377 = 276223690.826076990776"
  by (simp add: polyArea_def C4_def C3_def C2_def C1_def C0_def)

lemma polyArea_4400: "polyArea 4400 = 309067021.5456"
  by (simp add: polyArea_def C4_def C3_def C2_def C1_def C0_def)

lemma polyArea_4413_5: "polyArea (8827 / 2) = 298421550.6239734260735"
  by (simp add: polyArea_def C4_def C3_def C2_def C1_def C0_def power_divide)

lemma polyArea_4446: "polyArea 4446 = - 14516368.178968038784"
  by (simp add: polyArea_def C4_def C3_def C2_def C1_def C0_def)

lemma polyArea_4450: "polyArea 4450 = - 100851167.77515"
  by (simp add: polyArea_def C4_def C3_def C2_def C1_def C0_def)

lemma area_4300: "calculatePolynomialArea 4300 = 0"
  by (simp add: calculatePolynomialArea_def polyArea_4300)

lemma area_4377: "calculatePolynomialArea 4377 = 276223690.826076990776"
  by (simp add: calculatePolynomialArea_def polyArea_4377)

lemma area_4413_5: "calculatePolynomialArea (8827 / 2) = 298421550.6239734260735"
  by (simp add: calculatePolynomialArea_def polyArea_4413_5)

lemma year_of_no_area: "math_round (calculateYearFromArea 0) = 1877"
  by (simp add: math_round_def calculateYearFromArea_def YEAR_SLOPE_def YEAR_INTERCEPT_def)

subsection \<open>The estimated year\<close>

text \<open>
  C1, as the code has it: \<open>calculateHydraulics\<close> has no branch on the area, and the
  estimated year is present in every sample. It is the rounded year of the linear model
  at the area in square kilometres; where the area is 0 or less, it is the year 1877.
\<close>

theorem estimatedYear_always_present:
  "estimatedYear (calculateHydraulics e m) =
     Some (math_round (calculateYearFromArea (surfaceArea (calculateHydraulics e m) / 1000000))) \<and>
   (surfaceArea (calculateHydraulics e m) \<le> 0 \<longrightarrow>
      estimatedYear (calculateHydraulics e m) = Some 1877)"
proof -
  have "surfaceArea (calculateHydraulics e m) \<le> 0 \<Longrightarrow> surfaceArea (calculateHydraulics e m) = 0"
    by (simp add: calculateHydraulics_def Let_def calculatePolynomialArea_def)
  then show ?thesis
    by (auto simp: calculateHydraulics_def Let_def year_of_no_area)
qed

text \<open>At the elevation 4300 the area is 0, and the year 1877 is reported.\<close>

theorem estimatedYear_always_present_witness:
  "surfaceArea (calculateHydraulics 4300 1000) \<le> 0 \<and>
   estimatedYear (calculateHydraulics 4300 1000) = Some 1877"
proof -
  have a: "surfaceArea (calculateHydraulics 4300 1000) \<le> 0"
    by (simp add: calculateHydraulics_def Let_def area_4300)
  show ?thesis
    using a estimatedYear_always_present [of 4300 1000] by blast
qed

text \<open>
  C1 as it is written fails at the elevation 4300: the area is 0 and the estimated
  year is not absent.
\<close>

theorem estimatedYear_present_at_zero_area:
  "surfaceArea (calculateHydraulics 4300 1000) \<le> 0 \<and>
   estimatedYear (calculateHydraulics 4300 1000) \<noteq> None"
  by (simp add: calculateHydraulics_def Let_def area_4300)

subsection \<open>The area over the search bracket\<close>

text \<open>
  C2 says that the area does not decrease with the elevation over the bracket
  \<open>[4304, 4450]\<close> of the search, as the comments of \<open>getElevationFromYear\<close>
  assume. The calibrated quartic does not have this shape: the elevations 4400 and 4450
  are both in the bracket, and the area is about 309 square kilometres at the first and
  0 at the second.
\<close>

theorem area_not_monotone_on_bracket:
  "(4304::real) \<le> 4400 \<and> (4400::real) \<le> 4450 \<and>
   calculatePolynomialArea 4400 = 309067021.5456 \<and> calculatePolynomialArea 4450 = 0 \<and>
   \<not> calculatePolynomialArea 4400 \<le> calculatePolynomialArea 4450"
  by (simp add: calculatePolynomialArea_def polyArea_4400 polyArea_4450)

text \<open>
  From the elevation 4404 upwards the quartic does not increase: its four derivatives
  are negative at 4404, so that every term of the difference quotient is at most 0.
\<close>

lemma polyArea_diff_at:
  "polyArea x - polyArea y =
     (x - y) * ((4 * C4 * a ^ 3 + 3 * C3 * a\<^sup>2 + 2 * C2 * a + C1)
              + (6 * C4 * a\<^sup>2 + 3 * C3 * a + C2) * ((x - a) + (y - a))
              + (4 * C4 * a + C3) * ((x - a)\<^sup>2 + (x - a) * (y - a) + (y - a)\<^sup>2)
              + C4 * ((x - a) ^ 3 + (x - a)\<^sup>2 * (y - a) + (x - a) * (y - a)\<^sup>2 + (y - a) ^ 3))"
  unfolding polyArea_def by algebra

lemma polyArea_antimono:
  assumes "4404 \<le> y" "y \<le> x"
  shows "polyArea x \<le> polyArea y"
proof -
  define s where "s = x - 4404"
  define t where "t = y - 4404"
  have st: "0 \<le> s" "0 \<le> t" using assms by (simp_all add: s_def t_def)
  have q1: "4 * C4 * 4404 ^ 3 + 3 * C3 * 4404\<^sup>2 + 2 * C2 * 4404 + C1 \<le> 0"
    by (simp add: C4_def C3_def C2_def C1_def)
  have q2: "6 * C4 * 4404\<^sup>2 + 3 * C3 * 4404 + C2 \<le> 0"
    by (simp add: C4_def C3_def C2_def)
  have q3: "4 * C4 * 4404 + C3 \<le> 0"
    by (simp add: C4_def C3_def)
  have q4: "C4 \<le> 0"
    by (simp add: C4_def)
  have p1: "0 \<le> s + t" using st by simp
  have p2: "0 \<le> s\<^sup>2 + s * t + t\<^sup>2" using st by simp
  have p3: "0 \<le> s ^ 3 + s\<^sup>2 * t + s * t\<^sup>2 + t ^ 3" using st by simp
  have g: "(4 * C4 * 4404 ^ 3 + 3 * C3 * 4404\<^sup>2 + 2 * C2 * 4404 + C1)
              + (6 * C4 * 4404\<^sup>2 + 3 * C3 * 4404 + C2) * (s + t)
              + (4 * C4 * 4404 + C3) * (s\<^sup>2 + s * t + t\<^sup>2)
              + C4 * (s ^ 3 + s\<^sup>2 * t + s * t\<^sup>2 + t ^ 3) \<le> 0"
    using q1 mult_nonpos_nonneg [OF q2 p1] mult_nonpos_nonneg [OF q3 p2] mult_nonpos_nonneg [OF q4 p3]
    by linarith
  have "polyArea x - polyArea y \<le> 0"
    unfolding polyArea_diff_at [of x y 4404] s_def [symmetric] t_def [symmetric]
    using assms(2) by (intro mult_nonneg_nonpos g) simp
  then show ?thesis by simp
qed

lemma area_antimono:
  assumes "4404 \<le> y" "y \<le> x"
  shows "calculatePolynomialArea x \<le> calculatePolynomialArea y"
  using polyArea_antimono [OF assms] unfolding calculatePolynomialArea_def by linarith

text \<open>
  While the area stays at least 1 square metre below the target on the whole bracket,
  the search moves the lower end at each iteration and ends just below the upper end.
\<close>

lemma searchLoop_goes_right:
  assumes "\<And>x. low \<le> x \<Longrightarrow> x \<le> high \<Longrightarrow> calculatePolynomialArea x \<le> target - 1"
    and "low \<le> high"
  shows "searchLoop n target low high = high - (high - low) / 2 ^ (n + 1)"
  using assms
proof (induction n arbitrary: low)
  case 0
  show ?case by (simp add: field_simps)
next
  case (Suc n)
  let ?mid = "(low + high) / 2"
  have m: "low \<le> ?mid" "?mid \<le> high" using Suc.prems(2) by simp_all
  have a: "calculatePolynomialArea ?mid \<le> target - 1"
    by (rule Suc.prems(1) [OF m])
  have step: "searchLoop (Suc n) target low high = searchLoop n target ?mid high"
    using a by (simp add: Let_def)
  have "searchLoop n target ?mid high = high - (high - ?mid) / 2 ^ (n + 1)"
  proof (rule Suc.IH)
    show "?mid \<le> high" by (rule m(2))
  next
    fix x assume "?mid \<le> x" "x \<le> high"
    then show "calculatePolynomialArea x \<le> target - 1"
      using m(1) by (intro Suc.prems(1)) simp_all
  qed
  also have "\<dots> = high - (high - low) / 2 ^ (Suc n + 1)"
    by (simp add: field_simps)
  finally show ?case unfolding step .
qed

text \<open>
  The year 2262 asks for 304.3586 square kilometres, an area that the lake has between
  the elevations 4377 and 4400. The search passes 4377 and 4413.5, stays right of them,
  and returns an elevation just below 4450, where the area is 0.
\<close>

lemma target_2262_between:
  "calculatePolynomialArea 4377 < 304358600 \<and> 304358600 < calculatePolynomialArea 4400"
  by (simp add: calculatePolynomialArea_def polyArea_4377 polyArea_4400)

lemma search_fails_for_year_2262:
  "getElevationFromYear 2262 = 4450 - 73 / 2 ^ 64 \<and>
   calculatePolynomialArea (getElevationFromYear 2262) = 0"
proof -
  define target :: real where "target = 304358600"
  have g: "getElevationFromYear 2262 = searchLoop 64 target 4304 4450"
    by (simp add: getElevationFromYear_def Let_def YEAR_SLOPE_def YEAR_INTERCEPT_def target_def)
  have s64: "searchLoop 64 target 4304 4450 = searchLoop 63 target 4377 4450"
    using searchLoop.simps(2) [of 63 target 4304 4450]
    by (simp add: Let_def area_4377 target_def)
  have s63: "searchLoop 63 target 4377 4450 = searchLoop 62 target (8827 / 2) 4450"
    using searchLoop.simps(2) [of 62 target 4377 4450]
    by (simp add: Let_def area_4413_5 target_def)
  have right: "calculatePolynomialArea x \<le> target - 1" if "8827 / 2 \<le> x" for x
    using area_antimono [of "8827 / 2" x] that by (simp add: area_4413_5 target_def)
  have s62: "searchLoop 62 target (8827 / 2) 4450 = 4450 - (4450 - 8827 / 2) / 2 ^ (62 + 1)"
    by (rule searchLoop_goes_right) (simp_all add: right)
  have r: "getElevationFromYear 2262 = 4450 - 73 / 2 ^ 64"
    unfolding g s64 s63 s62 by simp
  have "(4446::real) \<le> 4450 - 73 / 2 ^ 64"
    by simp
  then have "polyArea (4450 - 73 / 2 ^ 64) \<le> polyArea 4446"
    by (intro polyArea_antimono) simp_all
  then have "calculatePolynomialArea (4450 - 73 / 2 ^ 64) = 0"
    by (simp add: calculatePolynomialArea_def polyArea_4446)
  then show ?thesis by (simp add: r)
qed

subsection \<open>The round trip year, elevation, area, year\<close>

text \<open>
  The year 2262 is a year that \<open>calculateHydraulics\<close> itself reports, for an
  elevation between 4377 and 4400.
\<close>

lemma year_2262_is_reported:
  "\<exists>e. 4377 \<le> e \<and> e \<le> 4400 \<and> calculatePolynomialArea e = 304358600 \<and>
       estimatedYear (calculateHydraulics e m) = Some 2262"
proof -
  have c: "continuous_on {4377..4400} calculatePolynomialArea"
    unfolding calculatePolynomialArea_def polyArea_def by (intro continuous_intros)
  have "\<exists>e\<ge>4377. e \<le> 4400 \<and> calculatePolynomialArea e = 304358600"
    using target_2262_between by (intro IVT' c) simp_all
  then obtain e where e: "4377 \<le> e" "e \<le> 4400" "calculatePolynomialArea e = 304358600"
    by blast
  have "estimatedYear (calculateHydraulics e m) = Some 2262"
    by (simp add: calculateHydraulics_def Let_def e(3) math_round_def calculateYearFromArea_def
        YEAR_SLOPE_def YEAR_INTERCEPT_def)
  then show ?thesis using e by blast
qed

text \<open>
  C3 says that the year computed back from the area at the elevation that
  \<open>getElevationFromYear\<close> returns is the year again, up to the tolerance of the
  search. For the year 2262 the search ends just below 4450, where the area is 0, and
  the year computed back is below 1877: more than 385 years off.
\<close>

theorem round_trip_fails_for_year_2262:
  "calculateYearFromArea (calculatePolynomialArea (getElevationFromYear 2262) / 1000000) < 1877 \<and>
   385 < \<bar>calculateYearFromArea (calculatePolynomialArea (getElevationFromYear 2262) / 1000000) - 2262\<bar>"
proof -
  have "calculatePolynomialArea (getElevationFromYear 2262) = 0"
    using search_fails_for_year_2262 by simp
  then show ?thesis
    by (simp add: calculateYearFromArea_def YEAR_SLOPE_def YEAR_INTERCEPT_def)
qed

subsection \<open>The search stays in its bracket and follows the design\<close>

lemma searchLoop_in_bracket:
  "lo \<le> low \<Longrightarrow> low \<le> high \<Longrightarrow> high \<le> hi \<Longrightarrow>
   lo \<le> searchLoop n target low high \<and> searchLoop n target low high \<le> hi"
proof (induction n arbitrary: low high)
  case 0
  then show ?case by simp
next
  case (Suc n)
  let ?mid = "(low + high) / 2"
  have m: "low \<le> ?mid" "?mid \<le> high" using Suc.prems by simp_all
  have a: "lo \<le> searchLoop n target ?mid high \<and> searchLoop n target ?mid high \<le> hi"
    using Suc.IH [of ?mid high] m Suc.prems by simp
  have b: "lo \<le> searchLoop n target low ?mid \<and> searchLoop n target low ?mid \<le> hi"
    using Suc.IH [of low ?mid] m Suc.prems by simp
  show ?case using a b m Suc.prems by (simp add: Let_def)
qed

lemma searchLoop_bracket:
  "searchLoop n target (fst (bracket target k)) (snd (bracket target k)) =
     (case find (converged target) [k..<k + n] of
        Some j \<Rightarrow> midpoint target j
      | None \<Rightarrow> midpoint target (k + n))"
proof (induction n arbitrary: k)
  case 0
  then show ?case by (simp add: midpoint_def)
next
  case (Suc n)
  have upt: "[k..<k + Suc n] = k # [Suc k..<Suc k + n]"
    by (simp add: upt_conv_Cons)
  have idx: "k + Suc n = Suc k + n"
    by simp
  show ?case
  proof (cases "converged target k")
    case True
    have "searchLoop (Suc n) target (fst (bracket target k)) (snd (bracket target k)) =
          midpoint target k"
      using True by (simp add: converged_def midpoint_def Let_def)
    moreover have "find (converged target) (k # [Suc k..<Suc k + n]) = Some k"
      using True by simp
    ultimately show ?thesis
      unfolding upt by simp
  next
    case False
    have step: "searchLoop (Suc n) target (fst (bracket target k)) (snd (bracket target k)) =
                searchLoop n target (fst (bracket target (Suc k))) (snd (bracket target (Suc k)))"
      using False by (simp add: converged_def midpoint_def Let_def split_beta)
    have rest: "find (converged target) (k # [Suc k..<Suc k + n]) =
                find (converged target) [Suc k..<Suc k + n]"
      using False by simp
    have "searchLoop n target (fst (bracket target (Suc k))) (snd (bracket target (Suc k))) =
          (case find (converged target) [Suc k..<Suc k + n] of
             Some j \<Rightarrow> midpoint target j
           | None \<Rightarrow> midpoint target (Suc k + n))"
      by (rule Suc.IH)
    then show ?thesis
      unfolding step upt rest by (simp only: idx)
  qed
qed

text \<open>
  C4: \<open>getElevationFromYear\<close> is a total function, and it computes what the design
  describes: the lower bound 4304 when the target area is at most 1 square metre, and
  otherwise the midpoint of the first of at most 64 brackets at which the area is within
  1 square metre of the target, or the midpoint of the bracket that remains after the 64
  iterations. It has no error result.
\<close>

theorem getElevationFromYear_refines_spec:
  "getElevationFromYear year = elevationFromYear_spec year"
proof -
  define target where "target = max 0 ((YEAR_SLOPE * year + YEAR_INTERCEPT) * 1000000)"
  have "searchLoop 64 target 4304 4450 =
        (case find (converged target) [0..<64] of
           Some j \<Rightarrow> midpoint target j
         | None \<Rightarrow> midpoint target 64)"
    using searchLoop_bracket [of 64 target 0] by (simp only: bracket.simps fst_conv snd_conv add_0)
  then show ?thesis
    unfolding getElevationFromYear_def elevationFromYear_spec_def Let_def target_def [symmetric]
    by (simp only:)
qed

text \<open>
  C10: whatever the year, \<open>getElevationFromYear\<close> returns an elevation of the closed
  interval \<open>[4304, 4450]\<close>.
\<close>

theorem getElevationFromYear_in_bracket:
  "4304 \<le> getElevationFromYear year \<and> getElevationFromYear year \<le> 4450"
  using searchLoop_in_bracket [of 4304 4304 4450 4450 64]
  by (simp add: getElevationFromYear_def Let_def)

subsection \<open>Numeric guards\<close>

text \<open>The bound of the doubles lies between \<open>10 ^ 305\<close> and \<open>18 * 10 ^ 307\<close>.\<close>

lemma overflow_PInf: "2 ^ 1024 \<le> r \<Longrightarrow> overflow r = PInf"
  by (simp add: overflow_def)

lemma overflow_Fin: "- (2 ^ 1024) < r \<Longrightarrow> r < 2 ^ 1024 \<Longrightarrow> overflow r = Fin r"
  by (simp add: overflow_def)

lemma limit_below: "(2::real) ^ 1024 \<le> 18 * 10 ^ 307"
  by simp

lemma limit_above: "(10::real) ^ 305 < 2 ^ 1024"
  by simp

lemma ten_mono: "j \<le> k \<Longrightarrow> (10::real) ^ j \<le> 10 ^ k"
  by (rule power_increasing) simp_all

lemma ten_power: "j * n = k \<Longrightarrow> ((10::real) ^ j) ^ n = 10 ^ k"
  by (auto simp: power_mult)

lemma ten_split: "j + k = n \<Longrightarrow> (10::real) ^ n = 10 ^ j * 10 ^ k"
  by (auto simp: power_add)

lemma scaled_limit:
  fixes c :: real
  assumes "18 * 10 ^ j \<le> c" "j + k = 307"
  shows "18 * 10 ^ 307 \<le> c * 10 ^ k"
proof -
  have "(18::real) * 10 ^ 307 = 18 * (10 ^ j * 10 ^ k)"
    by (simp only: ten_split [OF assms(2)])
  also have "\<dots> = (18 * 10 ^ j) * 10 ^ k"
    by (simp only: mult.assoc)
  also have "\<dots> \<le> c * 10 ^ k"
    using assms(1) by (rule mult_right_mono) simp
  finally show ?thesis .
qed

lemma d_add_NaN: "d_add NaN t = NaN"
  by (simp add: d_add_def)

lemma d_sub_NaN: "d_sub NaN t = NaN"
  by (simp add: d_sub_def)

lemma math_max_NaN: "math_max (Fin 0) NaN = NaN"
  by (simp add: math_max_def)

lemma d_add_NInf_PInf: "d_add NInf PInf = NaN"
  by (simp add: d_add_def)

lemma d_pow_PInf:
  assumes "x = 10 ^ j" "309 \<le> j * n"
  shows "d_pow (Fin x) n = PInf"
proof -
  have "x ^ n = 10 ^ (j * n)"
    unfolding assms(1) by (rule ten_power) simp
  moreover have "(10::real) ^ 309 \<le> 10 ^ (j * n)"
    using assms(2) by (rule ten_mono)
  moreover have "(18::real) * 10 ^ 307 \<le> 10 ^ 2 * 10 ^ 307"
    by (rule mult_right_mono) simp_all
  moreover have "(10::real) ^ 309 = 10 ^ 2 * 10 ^ 307"
    by (rule ten_split) simp
  ultimately have "2 ^ 1024 \<le> x ^ n"
    using limit_below by linarith
  then show ?thesis by (simp add: d_pow_def overflow_PInf)
qed

lemma d_pow_keep:
  assumes "x = 10 ^ j" "j * n \<le> 305"
  shows "d_pow (Fin x) n = Fin (10 ^ (j * n))"
proof -
  have e: "x ^ n = 10 ^ (j * n)"
    unfolding assms(1) by (rule ten_power) simp
  have "(10::real) ^ (j * n) \<le> 10 ^ 305"
    using assms(2) by (rule ten_mono)
  moreover have "(0::real) < 10 ^ (j * n)" by simp
  ultimately have "- (2 ^ 1024) < x ^ n" "x ^ n < 2 ^ 1024"
    unfolding e using limit_above by linarith+
  then show ?thesis by (simp add: d_pow_def overflow_Fin e)
qed

lemma d_mul_neg_PInf: "c < 0 \<Longrightarrow> d_mul (Fin c) PInf = NInf"
  by (simp add: d_mul_def signed_inf_def)

lemma d_mul_PInf: "18 * 10 ^ 307 \<le> a * b \<Longrightarrow> d_mul (Fin a) (Fin b) = PInf"
proof -
  assume "18 * 10 ^ 307 \<le> a * b"
  then have "2 ^ 1024 \<le> a * b" using limit_below by linarith
  then show ?thesis by (simp add: d_mul_def overflow_PInf)
qed

lemma d_mul_pos_PInf: "0 < c \<Longrightarrow> d_mul (Fin c) PInf = PInf"
  by (simp add: d_mul_def signed_inf_def)

text \<open>
  At the elevation \<open>10 ^ 101\<close> the fourth power and the cubic term overflow, with
  opposite signs: their sum is \<open>NaN\<close>, and so is the area, since \<open>Math.max\<close>
  returns \<open>NaN\<close> when an argument is.
\<close>

lemma area_1e101: "calculatePolynomialArea_num (Fin (10 ^ 101)) = NaN"
proof -
  have p4: "d_pow (Fin (10 ^ 101)) 4 = PInf"
    by (rule d_pow_PInf [of _ 101]) simp_all
  have p3: "d_pow (Fin (10 ^ 101)) 3 = Fin (10 ^ (101 * 3))"
    by (rule d_pow_keep) simp_all
  have t4: "d_mul (Fin C4) PInf = NInf"
    by (rule d_mul_neg_PInf) (simp add: C4_def)
  have "(18::real) * 10 ^ 307 \<le> C3 * 10 ^ (101 * 3)"
    by (rule scaled_limit [of 4]) (simp_all add: C3_def)
  then have t3: "d_mul (Fin C3) (Fin (10 ^ (101 * 3))) = PInf"
    by (rule d_mul_PInf)
  show ?thesis
    unfolding calculatePolynomialArea_num_def Let_def p4 p3 t4 t3 d_add_NInf_PInf d_add_NaN math_max_NaN ..
qed

lemma integral_NaN:
  assumes p5: "d_pow (Fin x) 5 = PInf" and t4: "d_mul (d_div (Fin C3) (Fin 4)) (d_pow (Fin x) 4) = PInf"
  shows "calculateAreaIntegral_num (Fin x) = NaN"
proof -
  have c: "d_div (Fin C4) (Fin 5) = Fin (C4 / 5)"
    by (simp add: d_div_def overflow_def C4_def)
  have t5: "d_mul (Fin (C4 / 5)) PInf = NInf"
    by (rule d_mul_neg_PInf) (simp add: C4_def)
  show ?thesis
    unfolding calculateAreaIntegral_num_def Let_def p5 t4 c t5 d_add_NInf_PInf d_add_NaN ..
qed

lemma C3_quarter: "d_div (Fin C3) (Fin 4) = Fin (C3 / 4)"
  by (simp add: d_div_def overflow_def C3_def)

lemma integral_1e101: "calculateAreaIntegral_num (Fin (10 ^ 101)) = NaN"
proof (rule integral_NaN)
  show "d_pow (Fin (10 ^ 101)) 5 = PInf"
    by (rule d_pow_PInf [of _ 101]) simp_all
  have "d_pow (Fin (10 ^ 101)) 4 = PInf"
    by (rule d_pow_PInf [of _ 101]) simp_all
  then show "d_mul (d_div (Fin C3) (Fin 4)) (d_pow (Fin (10 ^ 101)) 4) = PInf"
    unfolding C3_quarter by (simp add: d_mul_pos_PInf C3_def)
qed

lemma integral_1e76: "calculateAreaIntegral_num (Fin (10 ^ 76)) = NaN"
proof (rule integral_NaN)
  show "d_pow (Fin (10 ^ 76)) 5 = PInf"
    by (rule d_pow_PInf [of _ 76]) simp_all
  have p4: "d_pow (Fin (10 ^ 76)) 4 = Fin (10 ^ (76 * 4))"
    by (rule d_pow_keep) simp_all
  have "(18::real) * 10 ^ 307 \<le> C3 / 4 * 10 ^ (76 * 4)"
    by (rule scaled_limit [of 3]) (simp_all add: C3_def)
  then have "d_mul (Fin (C3 / 4)) (Fin (10 ^ (76 * 4))) = PInf"
    by (rule d_mul_PInf)
  then show "d_mul (d_div (Fin C3) (Fin 4)) (d_pow (Fin (10 ^ 76)) 4) = PInf"
    unfolding C3_quarter p4 .
qed

lemma volume_NaN:
  assumes "calculateAreaIntegral_num (Fin x) = NaN" "4304 < x"
  shows "volume_num (calculateHydraulics_num (Fin x) m) = NaN"
  using assms by (simp add: calculateHydraulics_num_def Let_def LOWER_LIMIT_def d_sub_NaN math_max_NaN)

text \<open>
  C7 says that the area and the volume are at least 0 for every elevation, also far
  outside the calibration domain. At the elevation \<open>10 ^ 101\<close> both are \<open>NaN\<close>,
  and the volume is \<open>NaN\<close> already at \<open>10 ^ 76\<close>: the two clamps
  \<open>Math.max(0, ...)\<close> let \<open>NaN\<close> through.
\<close>

theorem guards_let_NaN_through:
  "calculatePolynomialArea_num (Fin (10 ^ 101)) = NaN \<and>
   surfaceArea_num (calculateHydraulics_num (Fin (10 ^ 101)) (Fin 1000)) = NaN \<and>
   volume_num (calculateHydraulics_num (Fin (10 ^ 101)) (Fin 1000)) = NaN \<and>
   volume_num (calculateHydraulics_num (Fin (10 ^ 76)) (Fin 1000)) = NaN"
proof -
  have big: "(4304::real) < 10 ^ 76" "(4304::real) < 10 ^ 101"
    using ten_mono [of 4 76] ten_mono [of 4 101] by simp_all
  have "surfaceArea_num (calculateHydraulics_num (Fin (10 ^ 101)) (Fin 1000)) =
        calculatePolynomialArea_num (Fin (10 ^ 101))"
    by (simp add: calculateHydraulics_num_def Let_def)
  then show ?thesis
    using area_1e101 volume_NaN [OF integral_1e101 big(2)] volume_NaN [OF integral_1e76 big(1)]
    by simp
qed

text \<open>
  Up to \<open>10 ^ 50\<close> in magnitude no operation overflows: the functions over
  \<open>number\<close> return the values of the functions over the reals, and the guards hold.
\<close>

lemma bounded_mono: "bounded j r \<Longrightarrow> j \<le> k \<Longrightarrow> bounded k r"
  unfolding bounded_def using ten_mono [of j k] by linarith

lemma bounded_add: "bounded k a \<Longrightarrow> bounded k b \<Longrightarrow> bounded (Suc k) (a + b)"
proof -
  assume a: "bounded k a" "bounded k b"
  define T :: real where "T = 10 ^ k"
  have "\<bar>a\<bar> \<le> T" "\<bar>b\<bar> \<le> T" using a by (simp_all add: bounded_def T_def)
  then have "\<bar>a + b\<bar> \<le> 10 * T" by linarith
  then show ?thesis by (simp add: bounded_def T_def)
qed

lemma bounded_minus: "bounded k b \<Longrightarrow> bounded k (- b)"
  by (simp add: bounded_def)

lemma bounded_diff: "bounded k a \<Longrightarrow> bounded k b \<Longrightarrow> bounded (Suc k) (a - b)"
  using bounded_add [of k a "- b"] by (simp add: bounded_minus)

lemma bounded_mult: "bounded j a \<Longrightarrow> bounded k b \<Longrightarrow> bounded (j + k) (a * b)"
proof -
  assume a: "bounded j a" "bounded k b"
  have "\<bar>a\<bar> * \<bar>b\<bar> \<le> 10 ^ j * 10 ^ k"
    by (rule mult_mono) (use a in \<open>simp_all add: bounded_def\<close>)
  then show ?thesis by (simp add: bounded_def abs_mult power_add)
qed

lemma bounded_power: "bounded k a \<Longrightarrow> bounded (k * n) (a ^ n)"
proof -
  assume a: "bounded k a"
  have "\<bar>a\<bar> ^ n \<le> (10 ^ k) ^ n"
    by (rule power_mono) (use a in \<open>simp_all add: bounded_def\<close>)
  then show ?thesis by (simp add: bounded_def power_abs power_mult)
qed

text \<open>A quotient by a divisor above \<open>1 / 1000\<close>.\<close>

lemma bounded_div:
  assumes "bounded k a" "1 / 1000 < v"
  shows "bounded (k + 3) (a / v)"
proof -
  have v: "0 < v" using assms(2) by simp
  have "\<bar>a / v\<bar> = \<bar>a\<bar> / v" using v by simp
  also have "\<dots> \<le> \<bar>a\<bar> / (1 / 1000)"
    using assms(2) by (intro divide_left_mono) simp_all
  also have "\<dots> = \<bar>a\<bar> * 10 ^ 3" by simp
  also have "\<dots> \<le> 10 ^ k * 10 ^ 3"
    using assms(1) by (intro mult_right_mono) (simp_all add: bounded_def)
  finally show ?thesis by (simp add: bounded_def power_add)
qed

lemma bounded_overflow:
  assumes "bounded k r" "k \<le> 305"
  shows "overflow r = Fin r"
proof -
  have "\<bar>r\<bar> \<le> 10 ^ 305"
    using bounded_mono [OF assms] by (simp only: bounded_def)
  then have "- (2 ^ 1024) < r" "r < 2 ^ 1024"
    using limit_above by linarith+
  then show ?thesis by (rule overflow_Fin)
qed

lemma d_pow_Fin: "bounded k (a ^ n) \<Longrightarrow> k \<le> 305 \<Longrightarrow> d_pow (Fin a) n = Fin (a ^ n)"
  by (simp add: d_pow_def bounded_overflow)

lemma d_mul_Fin: "bounded k (a * b) \<Longrightarrow> k \<le> 305 \<Longrightarrow> d_mul (Fin a) (Fin b) = Fin (a * b)"
  by (simp add: d_mul_def bounded_overflow)

lemma d_add_Fin: "bounded k (a + b) \<Longrightarrow> k \<le> 305 \<Longrightarrow> d_add (Fin a) (Fin b) = Fin (a + b)"
  by (simp add: d_add_def bounded_overflow)

lemma d_sub_Fin: "bounded k (a - b) \<Longrightarrow> k \<le> 305 \<Longrightarrow> d_sub (Fin a) (Fin b) = Fin (a - b)"
  by (simp add: d_sub_def bounded_overflow)

lemma d_div_Fin:
  "b \<noteq> 0 \<Longrightarrow> bounded k (a / b) \<Longrightarrow> k \<le> 305 \<Longrightarrow> d_div (Fin a) (Fin b) = Fin (a / b)"
  by (simp add: d_div_def bounded_overflow)

lemma coefficients_bounded:
  "bounded 20 C4" "bounded 20 C3" "bounded 20 C2" "bounded 20 C1" "bounded 20 C0"
  "bounded 20 (C4 / 5)" "bounded 20 (C3 / 4)" "bounded 20 (C2 / 3)" "bounded 20 (C1 / 2)"
  by (simp_all add: bounded_def C4_def C3_def C2_def C1_def C0_def)

lemma polyArea_bounded:
  assumes x: "bounded 50 x"
  shows "calculatePolynomialArea_num (Fin x) = Fin (calculatePolynomialArea x)"
    and "bounded 225 (calculatePolynomialArea x)"
proof -
  note c = coefficients_bounded
  have p: "bounded 200 (x ^ 4)" "bounded 200 (x ^ 3)" "bounded 200 (x ^ 2)" "bounded 200 x"
    using bounded_power [OF x, of 4] bounded_power [OF x, of 3, THEN bounded_mono, of 200]
      bounded_power [OF x, of 2, THEN bounded_mono, of 200] bounded_mono [OF x, of 200]
    by simp_all
  have t: "bounded 220 (C4 * x ^ 4)" "bounded 220 (C3 * x ^ 3)" "bounded 220 (C2 * x ^ 2)"
      "bounded 220 (C1 * x)"
    using bounded_mult [OF c(1) p(1)] bounded_mult [OF c(2) p(2)] bounded_mult [OF c(3) p(3)]
      bounded_mult [OF c(4) p(4)] by simp_all
  have s1: "bounded 221 (C4 * x ^ 4 + C3 * x ^ 3)"
    using bounded_add [OF t(1) t(2)] by simp
  have s2: "bounded 222 (C4 * x ^ 4 + C3 * x ^ 3 + C2 * x ^ 2)"
    using bounded_add [OF s1 bounded_mono [OF t(3), of 221]] by simp
  have s3: "bounded 223 (C4 * x ^ 4 + C3 * x ^ 3 + C2 * x ^ 2 + C1 * x)"
    using bounded_add [OF s2 bounded_mono [OF t(4), of 222]] by simp
  have s4: "bounded 224 (C4 * x ^ 4 + C3 * x ^ 3 + C2 * x ^ 2 + C1 * x + C0)"
    using bounded_add [OF s3 bounded_mono [OF c(5), of 223]] by simp
  have pw: "d_pow (Fin x) 4 = Fin (x ^ 4)" "d_pow (Fin x) 3 = Fin (x ^ 3)" "d_pow (Fin x) 2 = Fin (x ^ 2)"
    using p(1,2,3) by (simp_all add: d_pow_Fin)
  have tm: "d_mul (Fin C4) (Fin (x ^ 4)) = Fin (C4 * x ^ 4)" "d_mul (Fin C3) (Fin (x ^ 3)) = Fin (C3 * x ^ 3)"
      "d_mul (Fin C2) (Fin (x ^ 2)) = Fin (C2 * x ^ 2)" "d_mul (Fin C1) (Fin x) = Fin (C1 * x)"
    using t by (simp_all add: d_mul_Fin)
  have sm: "d_add (Fin (C4 * x ^ 4)) (Fin (C3 * x ^ 3)) = Fin (C4 * x ^ 4 + C3 * x ^ 3)"
      "d_add (Fin (C4 * x ^ 4 + C3 * x ^ 3)) (Fin (C2 * x ^ 2)) = Fin (C4 * x ^ 4 + C3 * x ^ 3 + C2 * x ^ 2)"
      "d_add (Fin (C4 * x ^ 4 + C3 * x ^ 3 + C2 * x ^ 2)) (Fin (C1 * x)) =
         Fin (C4 * x ^ 4 + C3 * x ^ 3 + C2 * x ^ 2 + C1 * x)"
      "d_add (Fin (C4 * x ^ 4 + C3 * x ^ 3 + C2 * x ^ 2 + C1 * x)) (Fin C0) =
         Fin (C4 * x ^ 4 + C3 * x ^ 3 + C2 * x ^ 2 + C1 * x + C0)"
    using s1 s2 s3 s4 by (simp_all add: d_add_Fin)
  show "calculatePolynomialArea_num (Fin x) = Fin (calculatePolynomialArea x)"
    unfolding calculatePolynomialArea_num_def Let_def pw tm sm
    by (simp add: math_max_def calculatePolynomialArea_def polyArea_def max_def)
  have "\<bar>calculatePolynomialArea x\<bar> \<le> \<bar>polyArea x\<bar>"
    unfolding calculatePolynomialArea_def by linarith
  moreover have "bounded 224 (polyArea x)"
    using s4 by (simp add: polyArea_def)
  ultimately show "bounded 225 (calculatePolynomialArea x)"
    using ten_mono [of 224 225] unfolding bounded_def by linarith
qed

lemma areaIntegral_bounded:
  assumes x: "bounded 50 x"
  shows "calculateAreaIntegral_num (Fin x) = Fin (calculateAreaIntegral x)"
    and "bounded 274 (calculateAreaIntegral x)"
proof -
  note c = coefficients_bounded
  have k: "d_div (Fin C4) (Fin 5) = Fin (C4 / 5)" "d_div (Fin C3) (Fin 4) = Fin (C3 / 4)"
      "d_div (Fin C2) (Fin 3) = Fin (C2 / 3)" "d_div (Fin C1) (Fin 2) = Fin (C1 / 2)"
    using c(6-9) by (simp_all add: d_div_Fin)
  have p: "bounded 250 (x ^ 5)" "bounded 250 (x ^ 4)" "bounded 250 (x ^ 3)" "bounded 250 (x ^ 2)"
      "bounded 250 x"
    using bounded_power [OF x, of 5] bounded_power [OF x, of 4, THEN bounded_mono, of 250]
      bounded_power [OF x, of 3, THEN bounded_mono, of 250]
      bounded_power [OF x, of 2, THEN bounded_mono, of 250] bounded_mono [OF x, of 250]
    by simp_all
  have t: "bounded 270 (C4 / 5 * x ^ 5)" "bounded 270 (C3 / 4 * x ^ 4)" "bounded 270 (C2 / 3 * x ^ 3)"
      "bounded 270 (C1 / 2 * x ^ 2)" "bounded 270 (C0 * x)"
    using bounded_mult [OF c(6) p(1)] bounded_mult [OF c(7) p(2)] bounded_mult [OF c(8) p(3)]
      bounded_mult [OF c(9) p(4)] bounded_mult [OF c(5) p(5)] by simp_all
  have s1: "bounded 271 (C4 / 5 * x ^ 5 + C3 / 4 * x ^ 4)"
    using bounded_add [OF t(1) t(2)] by simp
  have s2: "bounded 272 (C4 / 5 * x ^ 5 + C3 / 4 * x ^ 4 + C2 / 3 * x ^ 3)"
    using bounded_add [OF s1 bounded_mono [OF t(3), of 271]] by simp
  have s3: "bounded 273 (C4 / 5 * x ^ 5 + C3 / 4 * x ^ 4 + C2 / 3 * x ^ 3 + C1 / 2 * x ^ 2)"
    using bounded_add [OF s2 bounded_mono [OF t(4), of 272]] by simp
  have s4: "bounded 274 (C4 / 5 * x ^ 5 + C3 / 4 * x ^ 4 + C2 / 3 * x ^ 3 + C1 / 2 * x ^ 2 + C0 * x)"
    using bounded_add [OF s3 bounded_mono [OF t(5), of 273]] by simp
  have pw: "d_pow (Fin x) 5 = Fin (x ^ 5)" "d_pow (Fin x) 4 = Fin (x ^ 4)" "d_pow (Fin x) 3 = Fin (x ^ 3)"
      "d_pow (Fin x) 2 = Fin (x ^ 2)"
    using p(1-4) by (simp_all add: d_pow_Fin)
  have tm: "d_mul (Fin (C4 / 5)) (Fin (x ^ 5)) = Fin (C4 / 5 * x ^ 5)"
      "d_mul (Fin (C3 / 4)) (Fin (x ^ 4)) = Fin (C3 / 4 * x ^ 4)"
      "d_mul (Fin (C2 / 3)) (Fin (x ^ 3)) = Fin (C2 / 3 * x ^ 3)"
      "d_mul (Fin (C1 / 2)) (Fin (x ^ 2)) = Fin (C1 / 2 * x ^ 2)"
      "d_mul (Fin C0) (Fin x) = Fin (C0 * x)"
    using t by (simp_all add: d_mul_Fin)
  have sm: "d_add (Fin (C4 / 5 * x ^ 5)) (Fin (C3 / 4 * x ^ 4)) = Fin (C4 / 5 * x ^ 5 + C3 / 4 * x ^ 4)"
      "d_add (Fin (C4 / 5 * x ^ 5 + C3 / 4 * x ^ 4)) (Fin (C2 / 3 * x ^ 3)) =
         Fin (C4 / 5 * x ^ 5 + C3 / 4 * x ^ 4 + C2 / 3 * x ^ 3)"
      "d_add (Fin (C4 / 5 * x ^ 5 + C3 / 4 * x ^ 4 + C2 / 3 * x ^ 3)) (Fin (C1 / 2 * x ^ 2)) =
         Fin (C4 / 5 * x ^ 5 + C3 / 4 * x ^ 4 + C2 / 3 * x ^ 3 + C1 / 2 * x ^ 2)"
      "d_add (Fin (C4 / 5 * x ^ 5 + C3 / 4 * x ^ 4 + C2 / 3 * x ^ 3 + C1 / 2 * x ^ 2)) (Fin (C0 * x)) =
         Fin (C4 / 5 * x ^ 5 + C3 / 4 * x ^ 4 + C2 / 3 * x ^ 3 + C1 / 2 * x ^ 2 + C0 * x)"
    using s1 s2 s3 s4 by (simp_all add: d_add_Fin)
  show "calculateAreaIntegral_num (Fin x) = Fin (calculateAreaIntegral x)"
    unfolding calculateAreaIntegral_num_def Let_def k pw tm sm calculateAreaIntegral_def ..
  show "bounded 274 (calculateAreaIntegral x)"
    using s4 by (simp only: calculateAreaIntegral_def)
qed

lemma math_max_Fin: "math_max (Fin a) (Fin b) = Fin (max a b)"
  by (simp add: math_max_def max_def)

lemma hydraulics_num_in_range:
  assumes x: "\<bar>x\<bar> \<le> 10 ^ 50" and m: "\<bar>m\<bar> \<le> 10 ^ 50"
  shows "surfaceArea_num (calculateHydraulics_num (Fin x) (Fin m)) = Fin (surfaceArea (calculateHydraulics x m))"
    and "volume_num (calculateHydraulics_num (Fin x) (Fin m)) = Fin (volume (calculateHydraulics x m))"
    and "concentration_num (calculateHydraulics_num (Fin x) (Fin m)) =
           Fin (concentration (calculateHydraulics x m))"
proof -
  have bx: "bounded 50 x" and bm: "bounded 50 m"
    using x m by (simp_all add: bounded_def)
  have bl: "bounded 50 4304"
    using ten_mono [of 4 50] by (simp add: bounded_def)
  note A = polyArea_bounded [OF bx]
  note F = areaIntegral_bounded [OF bx]
  note L = areaIntegral_bounded [OF bl]
  define vol where "vol = volume (calculateHydraulics x m)"
  have vol: "vol = max 0 (if 4304 < x then calculateAreaIntegral x - calculateAreaIntegral 4304 else 0)"
    by (simp add: vol_def calculateHydraulics_def Let_def LOWER_LIMIT_def)
  have d: "d_sub (Fin (calculateAreaIntegral x)) (Fin (calculateAreaIntegral 4304)) =
           Fin (calculateAreaIntegral x - calculateAreaIntegral 4304)"
    using bounded_diff [OF F(2) L(2)] by (simp add: d_sub_Fin)
  have area: "surfaceArea_num (calculateHydraulics_num (Fin x) (Fin m)) = Fin (calculatePolynomialArea x)"
    by (simp add: calculateHydraulics_num_def Let_def A(1))
  show "surfaceArea_num (calculateHydraulics_num (Fin x) (Fin m)) = Fin (surfaceArea (calculateHydraulics x m))"
    unfolding area by (simp add: calculateHydraulics_def Let_def)
  have vexpr: "math_max (Fin 0)
        (if num_less (Fin LOWER_LIMIT) (Fin x)
         then d_sub (calculateAreaIntegral_num (Fin x)) (calculateAreaIntegral_num (Fin LOWER_LIMIT))
         else Fin 0) = Fin vol"
    unfolding vol by (simp add: LOWER_LIMIT_def F(1) L(1) d math_max_Fin)
  have v: "volume_num (calculateHydraulics_num (Fin x) (Fin m)) = Fin vol"
    by (simp only: calculateHydraulics_num_def Let_def SimulationStats_num.select_convs vexpr)
  show "volume_num (calculateHydraulics_num (Fin x) (Fin m)) = Fin (volume (calculateHydraulics x m))"
    using v by (simp add: vol_def)
  have mass: "d_mul (Fin m) (Fin 1000000) = Fin (m * 1000000)"
  proof -
    have "bounded 6 1000000" by (simp add: bounded_def)
    then have "bounded (50 + 6) (m * 1000000)" by (rule bounded_mult [OF bm])
    then show ?thesis by (simp add: d_mul_Fin)
  qed
  have conc_r: "concentration (calculateHydraulics x m) =
                (if 0.001 < vol then m * 1000000 / vol else 0)"
    unfolding vol_def
    by (simp only: calculateHydraulics_def Let_def SimulationStats.select_convs)
  have conc_n: "concentration_num (calculateHydraulics_num (Fin x) (Fin m)) =
                (if num_less (Fin 0.001) (Fin vol) then d_div (d_mul (Fin m) (Fin 1000000)) (Fin vol)
                 else Fin 0)"
    by (simp only: calculateHydraulics_num_def Let_def SimulationStats_num.select_convs vexpr)
  show "concentration_num (calculateHydraulics_num (Fin x) (Fin m)) =
           Fin (concentration (calculateHydraulics x m))"
  proof (cases "0.001 < vol")
    case True
    have "bounded 6 1000000" by (simp add: bounded_def)
    then have "bounded (50 + 6) (m * 1000000)" by (rule bounded_mult [OF bm])
    then have "bounded (50 + 6 + 3) (m * 1000000 / vol)"
      by (rule bounded_div) (use True in simp)
    moreover have "vol \<noteq> 0" using True by simp
    ultimately have "d_div (Fin (m * 1000000)) (Fin vol) = Fin (m * 1000000 / vol)"
      by (simp add: d_div_Fin)
    then show ?thesis
      unfolding conc_r conc_n mass using True by simp
  next
    case False
    then show ?thesis
      unfolding conc_r conc_n by simp
  qed
qed

lemma numeric_guards_in_range:
  assumes x: "\<bar>x\<bar> \<le> 10 ^ 50" and m: "0 \<le> m" "m \<le> 10 ^ 50"
  shows "\<exists>a v c. surfaceArea_num (calculateHydraulics_num (Fin x) (Fin m)) = Fin a \<and> 0 \<le> a \<and>
           volume_num (calculateHydraulics_num (Fin x) (Fin m)) = Fin v \<and> 0 \<le> v \<and>
           concentration_num (calculateHydraulics_num (Fin x) (Fin m)) = Fin c \<and> 0 \<le> c \<and>
           (v \<le> 0.001 \<longrightarrow> c = 0)"
proof -
  have m': "\<bar>m\<bar> \<le> 10 ^ 50" using m by simp
  note h = hydraulics_num_in_range [OF x m']
  have "0 \<le> surfaceArea (calculateHydraulics x m)" "0 \<le> volume (calculateHydraulics x m)"
    "0 \<le> concentration (calculateHydraulics x m)"
    "volume (calculateHydraulics x m) \<le> 0.001 \<longrightarrow> concentration (calculateHydraulics x m) = 0"
    using m(1) by (simp_all add: calculateHydraulics_def Let_def calculatePolynomialArea_def)
  then show ?thesis using h by blast
qed

subsection \<open>The volume\<close>

text \<open>
  C8: the volume between an elevation and itself is 0, and the volume of the sample is
  0 at every elevation up to the lower limit 4304; above the limit it is the volume
  between the limit and the elevation.
\<close>

theorem volume_zero_cases:
  "volumeBetween L L = 0 \<and>
   (e \<le> 4304 \<longrightarrow> volume (calculateHydraulics e m) = 0) \<and>
   (4304 < e \<longrightarrow> volume (calculateHydraulics e m) = volumeBetween 4304 e)"
  by (simp add: volumeBetween_def calculateHydraulics_def Let_def LOWER_LIMIT_def)

theorem volume_zero_cases_witness:
  "volumeBetween 4320 4320 = 0 \<and>
   (4300::real) \<le> 4304 \<and> volume (calculateHydraulics 4300 1000) = 0 \<and>
   (4304::real) < 4305 \<and> volume (calculateHydraulics 4305 1000) = volumeBetween 4304 4305"
  using volume_zero_cases [of 4320 4300 1000] volume_zero_cases [of 4320 4305 1000] by simp

subsection \<open>Raster ingestion\<close>

lemma valid_is_finite: "\<not> noData v \<Longrightarrow> \<exists>r. v = Fin r"
  by (cases v) (simp_all add: noData_def)

text \<open>The running minimum after the first pass over the samples read so far.\<close>

lemma firstPass_result:
  "\<exists>mx. fold (firstPassStep fround) ss ([], PInf, NInf) =
     (map (\<lambda>s. if noData s then NaN else float32 fround s) ss,
      if validSamples ss = [] then PInf else Fin (Min (set (validSamples ss))),
      mx)"
proof (induction ss rule: rev_induct)
  case Nil
  show ?case by (simp add: validSamples_def)
next
  case (snoc s ss)
  then obtain mx where f: "fold (firstPassStep fround) ss ([], PInf, NInf) =
     (map (\<lambda>s. if noData s then NaN else float32 fround s) ss,
      if validSamples ss = [] then PInf else Fin (Min (set (validSamples ss))),
      mx)"
    by blast
  show ?case
  proof (cases "noData s")
    case True
    then show ?thesis by (simp add: f validSamples_def)
  next
    case False
    then obtain v where v: "s = Fin v" using valid_is_finite by blast
    have vs: "validSamples (ss @ [Fin v]) = validSamples ss @ [v]"
      using False by (simp add: validSamples_def v)
    show ?thesis
    proof (cases "validSamples ss = []")
      case True
      then show ?thesis using False by (simp add: f vs v)
    next
      case ne: False
      define M where "M = Min (set (validSamples ss))"
      have fin: "finite (set (validSamples ss))" "set (validSamples ss) \<noteq> {}"
        using ne by simp_all
      have m: "Min (set (validSamples ss @ [v])) = min v M"
        unfolding M_def using fin by simp
      have f': "fold (firstPassStep fround) ss ([], PInf, NInf) =
         (map (\<lambda>s. if noData s then NaN else float32 fround s) ss, Fin M, mx)"
        using f ne by (simp add: M_def)
      have "fold (firstPassStep fround) (ss @ [Fin v]) ([], PInf, NInf) =
         (map (\<lambda>s. if noData s then NaN else float32 fround s) (ss @ [Fin v]), Fin (min v M),
          if num_less mx (Fin v) then Fin v else mx)"
        using False by (simp add: f' v min_def)
      then show ?thesis
        unfolding v vs m by simp
    qed
  qed
qed

lemma readRaw_cases: "readRaw rawData i = NaN \<or> readRaw rawData i \<in> set rawData"
proof (cases "0 \<le> i \<and> i < int (length rawData)")
  case True
  then have "nat i < length rawData" by (auto simp: nat_less_iff)
  then have "rawData ! nat i \<in> set rawData" by (rule nth_mem)
  then show ?thesis using True by (simp add: readRaw_def)
next
  case False
  then show ?thesis by (auto simp: readRaw_def)
qed

lemma lowest_le_valid:
  assumes "s \<in> set ss" "\<not> noData s"
  shows "lowestValid ss \<le> finiteValue s"
proof -
  have "finiteValue s \<in> set (validSamples ss)"
    using assms by (auto simp: validSamples_def)
  then show ?thesis
    by (auto simp: lowestValid_def)
qed

lemma lowest_is_valid:
  assumes "validSamples ss \<noteq> []"
  shows "\<exists>s \<in> set ss. \<not> noData s \<and> finiteValue s = lowestValid ss"
proof -
  have "Min (set (validSamples ss)) \<in> set (validSamples ss)"
    using assms by (intro Min_in) simp_all
  then show ?thesis
    using assms by (auto simp: lowestValid_def validSamples_def)
qed

text \<open>
  The grid that \<open>processRawDemData\<close> returns, cell by cell, when the array keeps
  every valid sample of the raster as it is.
\<close>

lemma data_of_process:
  assumes repr: "\<And>v. Fin v \<in> set rawData \<Longrightarrow> \<not> noData (Fin v) \<Longrightarrow> fround v = v"
  shows "data (processRawDemData fround rawData origWidth origHeight targetMaxSize) =
           map (fillOrShift fround (lowestValid
                  (gridSamples rawData origWidth origHeight (demScale origWidth origHeight targetMaxSize)
                     (width (processRawDemData fround rawData origWidth origHeight targetMaxSize))
                     (height (processRawDemData fround rawData origWidth origHeight targetMaxSize)))))
               (gridSamples rawData origWidth origHeight (demScale origWidth origHeight targetMaxSize)
                     (width (processRawDemData fround rawData origWidth origHeight targetMaxSize))
                     (height (processRawDemData fround rawData origWidth origHeight targetMaxSize))) \<and>
         minHeight (processRawDemData fround rawData origWidth origHeight targetMaxSize) =
           Fin (lowestValid
                  (gridSamples rawData origWidth origHeight (demScale origWidth origHeight targetMaxSize)
                     (width (processRawDemData fround rawData origWidth origHeight targetMaxSize))
                     (height (processRawDemData fround rawData origWidth origHeight targetMaxSize))))"
proof (cases "max origWidth origHeight > targetMaxSize \<and> targetMaxSize = 0")
  case True
  then show ?thesis
    by (simp add: processRawDemData_def gridSamples_def lowestValid_def validSamples_def)
next
  case False
  define scale where "scale = demScale origWidth origHeight targetMaxSize"
  define newWidth where "newWidth = nat \<lfloor>real origWidth / scale\<rfloor>"
  define newHeight where "newHeight = nat \<lfloor>real origHeight / scale\<rfloor>"
  define ss where "ss = gridSamples rawData origWidth origHeight scale newWidth newHeight"
  obtain mx where f: "fold (firstPassStep fround) ss ([], PInf, NInf) =
     (map (\<lambda>s. if noData s then NaN else float32 fround s) ss,
      if validSamples ss = [] then PInf else Fin (Min (set (validSamples ss))),
      mx)"
    using firstPass_result [of fround ss] by blast
  have from_raw: "s = NaN \<or> s \<in> set rawData" if "s \<in> set ss" for s
    using that readRaw_cases [of rawData] by (auto simp: ss_def gridSamples_def sampleAt_def Let_def)
  have kept: "float32 fround s = s" if a: "s \<in> set ss" and b: "\<not> noData s" for s
  proof -
    obtain v where v: "s = Fin v" using b valid_is_finite by blast
    then have "Fin v \<in> set rawData" using from_raw [OF a] by simp
    moreover have "\<not> noData (Fin v)" using b v by simp
    ultimately show ?thesis using repr v by simp
  qed
  have cell: "normalizeCell fround (Fin (lowestValid ss)) (if noData s then NaN else float32 fround s) =
              fillOrShift fround (lowestValid ss) s" if a: "s \<in> set ss" for s
  proof (cases "noData s")
    case True
    then show ?thesis by (simp add: normalizeCell_def fillOrShift_def)
  next
    case False
    obtain v where v: "s = Fin v" using False valid_is_finite by blast
    show ?thesis using False kept [OF a False]
      by (simp add: normalizeCell_def fillOrShift_def v)
  qed
  define mn where "mn = (if validSamples ss = [] then PInf else Fin (Min (set (validSamples ss))))"
  have minv: "(if mn = PInf then Fin 0 else mn) = Fin (lowestValid ss)"
    by (simp add: mn_def lowestValid_def)
  have f': "fold (firstPassStep fround) ss ([], PInf, NInf) =
     (map (\<lambda>s. if noData s then NaN else float32 fround s) ss, mn, mx)"
    using f by (simp only: mn_def)
  have w: "width (processRawDemData fround rawData origWidth origHeight targetMaxSize) = newWidth"
    and h: "height (processRawDemData fround rawData origWidth origHeight targetMaxSize) = newHeight"
    using False
    by (auto simp: processRawDemData_def Let_def scale_def [symmetric] newWidth_def [symmetric]
        newHeight_def [symmetric] split_beta)
  have d0: "data (processRawDemData fround rawData origWidth origHeight targetMaxSize) =
        map (normalizeCell fround (if mn = PInf then Fin 0 else mn))
            (map (\<lambda>s. if noData s then NaN else float32 fround s) ss)"
    using False
    by (auto simp: processRawDemData_def Let_def scale_def [symmetric] newWidth_def [symmetric]
        newHeight_def [symmetric] ss_def [symmetric] f' split_beta if_distrib [of fst])
  have d: "data (processRawDemData fround rawData origWidth origHeight targetMaxSize) =
        map (fillOrShift fround (lowestValid ss)) ss"
    unfolding d0 minv using cell by simp
  have mh0: "minHeight (processRawDemData fround rawData origWidth origHeight targetMaxSize) =
        (if mn = PInf then Fin 0 else mn)"
    using False
    by (auto simp: processRawDemData_def Let_def scale_def [symmetric] newWidth_def [symmetric]
        newHeight_def [symmetric] ss_def [symmetric] f' split_beta if_distrib [of fst])
  have mh: "minHeight (processRawDemData fround rawData origWidth origHeight targetMaxSize) =
        Fin (lowestValid ss)"
    unfolding mh0 minv ..
  show ?thesis
    unfolding w h d mh scale_def [symmetric] ss_def [symmetric] by simp
qed

lemma no_valid_all_noData: "validSamples ss = [] \<Longrightarrow> s \<in> set ss \<Longrightarrow> noData s"
  by (auto simp: validSamples_def filter_empty_conv)

lemma fillOrShift_min_zero:
  assumes mono: "\<And>x y. x \<le> y \<Longrightarrow> fround x \<le> fround y"
    and zero: "fround 0 = 0"
    and ne: "ss \<noteq> []"
  shows "\<exists>hs. map (fillOrShift fround (lowestValid ss)) ss = map Fin hs \<and>
              (\<forall>x \<in> set hs. 0 \<le> x) \<and> Min (set hs) = 0"
proof -
  define g where "g = (\<lambda>s. if noData s then 0 else fround (finiteValue s - lowestValid ss))"
  let ?hs = "map g ss"
  have eq: "map (fillOrShift fround (lowestValid ss)) ss = map Fin ?hs"
    by (simp add: fillOrShift_def g_def)
  have nonneg: "0 \<le> g s" if a: "s \<in> set ss" for s
  proof (cases "noData s")
    case True
    then show ?thesis by (simp add: g_def)
  next
    case False
    have "0 \<le> finiteValue s - lowestValid ss"
      using lowest_le_valid [OF a False] by simp
    then have "fround 0 \<le> fround (finiteValue s - lowestValid ss)"
      by (rule mono)
    then show ?thesis using False by (simp add: g_def zero)
  qed
  have zero_in: "0 \<in> set ?hs"
  proof (cases "validSamples ss = []")
    case True
    obtain s where s: "s \<in> set ss" using ne by (cases ss) auto
    have "g s = 0" using no_valid_all_noData [OF True s] by (simp add: g_def)
    then show ?thesis using s by force
  next
    case False
    then obtain s where s: "s \<in> set ss" "\<not> noData s" "finiteValue s = lowestValid ss"
      using lowest_is_valid by blast
    have "g s = 0" using s(2,3) by (simp add: g_def zero)
    then show ?thesis using s(1) by force
  qed
  have "Min (set ?hs) = 0"
    using nonneg zero_in by (intro Min_eqI) auto
  then show ?thesis
    using eq nonneg by (intro exI [of _ ?hs]) auto
qed

text \<open>
  C5: when the output grid has a cell, every invalid cell is filled with 0 and every
  valid cell is its sample shifted down by the minimum over the valid samples, which is
  \<open>minHeight\<close>; every cell is a finite height of at least 0 and the least height
  is exactly 0. The array is assumed to round monotonically, to keep 0, and to keep the
  valid samples of the raster, which are integers or single precision numbers themselves.
\<close>

theorem normalized_grid_min_zero:
  assumes mono: "\<And>x y. x \<le> y \<Longrightarrow> fround x \<le> fround y"
    and zero: "fround 0 = 0"
    and repr: "\<And>v. Fin v \<in> set rawData \<Longrightarrow> \<not> noData (Fin v) \<Longrightarrow> fround v = v"
    and nonempty: "data (processRawDemData fround rawData origWidth origHeight targetMaxSize) \<noteq> []"
  shows "let r = processRawDemData fround rawData origWidth origHeight targetMaxSize;
             samples = gridSamples rawData origWidth origHeight
                         (demScale origWidth origHeight targetMaxSize) (width r) (height r)
         in data r = map (fillOrShift fround (lowestValid samples)) samples \<and>
            minHeight r = Fin (lowestValid samples) \<and>
            (\<exists>hs. data r = map Fin hs \<and> (\<forall>x \<in> set hs. 0 \<le> x) \<and> Min (set hs) = 0)"
proof -
  define r where "r = processRawDemData fround rawData origWidth origHeight targetMaxSize"
  define samples where "samples = gridSamples rawData origWidth origHeight
                         (demScale origWidth origHeight targetMaxSize) (width r) (height r)"
  have d: "data r = map (fillOrShift fround (lowestValid samples)) samples"
    and m: "minHeight r = Fin (lowestValid samples)"
    using data_of_process [of rawData fround origWidth origHeight targetMaxSize, OF repr]
    unfolding r_def samples_def by simp_all
  have ne: "samples \<noteq> []"
    using nonempty d unfolding r_def by auto
  have "\<exists>hs. map (fillOrShift fround (lowestValid samples)) samples = map Fin hs \<and>
              (\<forall>x \<in> set hs. 0 \<le> x) \<and> Min (set hs) = 0"
    using mono zero ne by (rule fillOrShift_min_zero)
  then have "\<exists>hs. data r = map Fin hs \<and> (\<forall>x \<in> set hs. 0 \<le> x) \<and> Min (set hs) = 0"
    unfolding d .
  then show ?thesis
    using d m unfolding Let_def r_def [symmetric] samples_def [symmetric] by simp
qed

lemma round_half_mono: "x \<le> y \<Longrightarrow> round_half x \<le> round_half y"
  unfolding round_half_def by (intro divide_right_mono of_int_le_iff [THEN iffD2] floor_mono) simp_all

lemma raster_example:
  "processRawDemData round_half [Fin 5.5, NaN, Fin 3, Fin 20000.25] 2 2 256 =
     \<lparr> data = [Fin 2.5, Fin 0, Fin 0, Fin 0], width = 2, height = 2,
       minHeight = Fin 3, maxHeight = Fin 2.5 \<rparr>"
  by (simp add: processRawDemData_def Let_def demScale_def gridSamples_def sampleAt_def readRaw_def
      noData_def normalizeCell_def round_half_def
      upt_rec [of _ 2] upt_rec [of _ "Suc 0"] upt_rec [of _ 0] numeral_2_eq_2)

theorem normalized_grid_min_zero_witness:
  "round_half 0 = 0 \<and> round_half 5.5 = 5.5 \<and> round_half 3 = 3 \<and> noData (Fin 20000.25) \<and>
   data (processRawDemData round_half [Fin 5.5, NaN, Fin 3, Fin 20000.25] 2 2 256) =
     [Fin (round_half (5.5 - 3)), Fin 0, Fin 0, Fin 0] \<and>
   minHeight (processRawDemData round_half [Fin 5.5, NaN, Fin 3, Fin 20000.25] 2 2 256) = Fin 3 \<and>
   (\<exists>hs. data (processRawDemData round_half [Fin 5.5, NaN, Fin 3, Fin 20000.25] 2 2 256) = map Fin hs \<and>
         Min (set hs) = 0)"
proof -
  have z: "round_half 0 = 0" by (simp add: round_half_def)
  have k: "round_half 5.5 = 5.5" "round_half 3 = 3"
    by (simp_all add: round_half_def)
  have nd: "noData (Fin 20000.25)"
    by (simp add: noData_def)
  have repr: "round_half v = v"
    if a: "Fin v \<in> set [Fin 5.5, NaN, Fin 3, Fin 20000.25]" and b: "\<not> noData (Fin v)" for v
  proof -
    from a have "v = 5.5 \<or> v = 3 \<or> v = 20000.25" by simp
    moreover have "v \<noteq> 20000.25"
    proof
      assume "v = 20000.25"
      then have "noData (Fin v)" by (simp only: nd)
      then show False using b by simp
    qed
    ultimately have "v = 5.5 \<or> v = 3" by blast
    then show ?thesis by (elim disjE) (simp_all only: k)
  qed
  have ne: "data (processRawDemData round_half [Fin 5.5, NaN, Fin 3, Fin 20000.25] 2 2 256) \<noteq> []"
    unfolding raster_example by simp
  have "\<exists>hs. data (processRawDemData round_half [Fin 5.5, NaN, Fin 3, Fin 20000.25] 2 2 256) = map Fin hs \<and>
         Min (set hs) = 0"
    using normalized_grid_min_zero [OF round_half_mono z repr ne] unfolding Let_def by blast
  then show ?thesis
    unfolding raster_example using z k nd by (simp add: round_half_def)
qed

lemma noData_NaN: "noData NaN"
  by (simp add: noData_def)

lemma readRaw_noData: "\<forall>v \<in> set rawData. noData v \<Longrightarrow> noData (readRaw rawData i)"
  by (auto simp: readRaw_def noData_NaN)

lemma sampleAt_noData:
  "\<forall>v \<in> set rawData. noData v \<Longrightarrow> noData (sampleAt rawData w h scale x y)"
  by (simp add: sampleAt_def Let_def readRaw_noData)

lemma firstPass_all_noData:
  "\<forall>v \<in> set vs. noData v \<Longrightarrow>
   fold (firstPassStep fround) vs (d, mn, mx) = (d @ replicate (length vs) NaN, mn, mx)"
proof (induction vs arbitrary: d)
  case Nil
  then show ?case by simp
next
  case (Cons v vs)
  then show ?case by (simp add: replicate_app_Cons_same)
qed

lemma length_gridSamples: "length (gridSamples rawData w h scale newWidth newHeight) = newWidth * newHeight"
  by (simp add: gridSamples_def length_concat comp_def sum_list_triv)

text \<open>
  C6: when every sample of the raster is no data, \<open>processRawDemData\<close> returns a grid
  whose cells are all 0, with \<open>minHeight = 0\<close> and \<open>maxHeight = 10\<close>.
\<close>

theorem all_noData_raster:
  assumes "\<forall>v \<in> set rawData. noData v"
  shows "data (processRawDemData fround rawData origWidth origHeight targetMaxSize) =
           replicate (width (processRawDemData fround rawData origWidth origHeight targetMaxSize) *
                      height (processRawDemData fround rawData origWidth origHeight targetMaxSize)) (Fin 0) \<and>
         minHeight (processRawDemData fround rawData origWidth origHeight targetMaxSize) = Fin 0 \<and>
         maxHeight (processRawDemData fround rawData origWidth origHeight targetMaxSize) = Fin 10"
proof (cases "max origWidth origHeight > targetMaxSize \<and> targetMaxSize = 0")
  case True
  then show ?thesis by (simp add: processRawDemData_def)
next
  case False
  define scale where "scale = demScale origWidth origHeight targetMaxSize"
  define newWidth where "newWidth = nat \<lfloor>real origWidth / scale\<rfloor>"
  define newHeight where "newHeight = nat \<lfloor>real origHeight / scale\<rfloor>"
  define samples where "samples = gridSamples rawData origWidth origHeight scale newWidth newHeight"
  have nd: "\<forall>v \<in> set samples. noData v"
    using sampleAt_noData [OF assms] by (auto simp: samples_def gridSamples_def)
  have len: "length samples = newWidth * newHeight"
    unfolding samples_def by (rule length_gridSamples)
  have f: "fold (firstPassStep fround) samples ([], PInf, NInf) =
             (replicate (newWidth * newHeight) NaN, PInf, NInf)"
    using firstPass_all_noData [OF nd, of fround "[]" PInf NInf] by (simp add: len)
  have r: "processRawDemData fround rawData origWidth origHeight targetMaxSize =
      \<lparr> data = replicate (newWidth * newHeight) (Fin 0), width = newWidth, height = newHeight,
        minHeight = Fin 0, maxHeight = Fin 10 \<rparr>"
    using False
    by (auto simp: processRawDemData_def Let_def scale_def [symmetric] newWidth_def [symmetric]
        newHeight_def [symmetric] samples_def [symmetric] f normalizeCell_def)
  show ?thesis by (simp add: r)
qed

theorem all_noData_raster_witness:
  "noData NaN \<and> noData PInf \<and> noData (Fin 20000) \<and> noData (Fin (- 12001)) \<and>
   processRawDemData round_half [NaN, PInf, Fin 20000, Fin (- 12001)] 2 2 256 =
     \<lparr> data = [Fin 0, Fin 0, Fin 0, Fin 0], width = 2, height = 2,
       minHeight = Fin 0, maxHeight = Fin 10 \<rparr>"
proof -
  have nd: "\<forall>v \<in> set [NaN, PInf, Fin 20000, Fin (- 12001)]. noData v"
    by (simp add: noData_def)
  have wh: "width (processRawDemData round_half [NaN, PInf, Fin 20000, Fin (- 12001)] 2 2 256) = 2"
    "height (processRawDemData round_half [NaN, PInf, Fin 20000, Fin (- 12001)] 2 2 256) = 2"
    by (simp_all add: processRawDemData_def Let_def split_beta demScale_def)
  show ?thesis
    using nd all_noData_raster [OF nd, of round_half 2 2 256] wh
    by (simp add: numeral_eq_Suc DemData.equality)
qed

subsection \<open>Colour by height\<close>

text \<open>
  C9 says that every channel of the colour lies between 0 and 1 for every height and
  every maximum. For the height 0 over the maximum 0 the quotient is \<open>NaN\<close>, the clamp
  lets it through, and the three channels are \<open>NaN\<close>.
\<close>

theorem getColorByHeight_zero_over_zero:
  "getColorByHeight 0 0 = (NaN, NaN, NaN)"
  by (simp add: getColorByHeight_def Let_def math_max_def math_min_def signed_inf_def
      blend_def ROCK_def SNOW_def lerp_def)

text \<open>For every other pair of a height and a maximum, the three channels are in range.\<close>

lemma clamp_range:
  assumes "h \<noteq> 0 \<or> m \<noteq> 0"
  shows "\<exists>t. math_min (math_max (num_div (Fin h) (Fin m)) (Fin 0)) (Fin 1) = Fin t \<and> 0 \<le> t \<and> t \<le> 1"
  using assms by (auto simp: math_max_def math_min_def signed_inf_def)

lemma lerp_range:
  assumes "0 \<le> a" "a \<le> 1" "0 \<le> b" "b \<le> 1" "0 \<le> t" "t \<le> 1"
  shows "unit_interval (lerp a b (Fin t))"
proof -
  have 1: "0 \<le> a * (1 - t)" "0 \<le> b * t" using assms by simp_all
  have 2: "a * (1 - t) \<le> 1 - t" "b * t \<le> t"
    using mult_right_mono [of a 1 "1 - t"] mult_right_mono [of b 1 t] assms by simp_all
  have "0 \<le> a * (1 - t) + b * t \<and> a * (1 - t) + b * t \<le> 1"
    using 1 2 by linarith
  then show ?thesis by (simp add: lerp_def unit_interval_def)
qed

lemma blend_range:
  assumes "0 \<le> t" "t \<le> 1"
    and "a \<in> {SAND, GRASS, ROCK, SNOW}" "b \<in> {SAND, GRASS, ROCK, SNOW}"
  shows "case blend a b (Fin t) of (r, g, bl) \<Rightarrow> unit_interval r \<and> unit_interval g \<and> unit_interval bl"
  using assms(3,4) lerp_range [OF _ _ _ _ assms(1,2)]
  by (auto simp: blend_def SAND_def GRASS_def ROCK_def SNOW_def)

lemma getColorByHeight_range:
  assumes "h \<noteq> 0 \<or> m \<noteq> 0"
  shows "case getColorByHeight h m of (r, g, b) \<Rightarrow> unit_interval r \<and> unit_interval g \<and> unit_interval b"
proof -
  obtain t where t: "math_min (math_max (num_div (Fin h) (Fin m)) (Fin 0)) (Fin 1) = Fin t"
    and r: "0 \<le> t" "t \<le> 1"
    using clamp_range [OF assms] by blast
  show ?thesis
  proof (cases "t < 0.1")
    case True
    have g: "getColorByHeight h m = blend SAND GRASS (Fin (t / 0.1))"
      using True unfolding getColorByHeight_def t Let_def by simp
    show ?thesis
      unfolding g using r True by (intro blend_range) simp_all
  next
    case n1: False
    show ?thesis
    proof (cases "t < 0.5")
      case True
      have g: "getColorByHeight h m = blend GRASS ROCK (Fin ((t - 0.1) / 0.4))"
        using n1 True unfolding getColorByHeight_def t Let_def by simp
      show ?thesis
        unfolding g using n1 True by (intro blend_range) simp_all
    next
      case False
      have g: "getColorByHeight h m = blend ROCK SNOW (Fin ((t - 0.5) / 0.5))"
        using n1 False unfolding getColorByHeight_def t Let_def by simp
      show ?thesis
        unfolding g using r False by (intro blend_range) simp_all
    qed
  qed
qed

end
